theory Spec2Isabelle
  imports Complex_Main "HOL-Library.Word"
begin

unbundle bit_operations_syntax

section \<open>Scalability tester: percentiles\<close>

text \<open>
  \<^verbatim>\<open>ScalabilityTester::calculate_all_percentiles\<close> (tester, lines 345-364).
  The samples are C++ doubles; the function only copies, sorts and indexes them, so
  they are modelled by any linearly ordered type with a zero (latencies are quotients
  of a microsecond count by 1000.0 and are never NaN).

  \<^verbatim>\<open>size_t index = (sorted_data.size() * p) / 100;\<close> is computed in the 64-bit
  unsigned type \<^verbatim>\<open>size_t\<close>: the product wraps modulo \<open>2 ^ 64\<close>.
\<close>

definition percentile_index :: "nat \<Rightarrow> nat \<Rightarrow> nat" where
  "percentile_index n p =
     (let index = ((n * p) mod 2 ^ 64) div 100;
          index = (if index > 0 then index - 1 else index);
          index = (if index \<ge> n then n - 1 else index)
      in index)"

definition calculate_all_percentiles :: "'a::{linorder,zero} list \<Rightarrow> 'a list" where
  "calculate_all_percentiles data =
     (if data = [] then replicate 100 0
      else
        let sorted_data = sort data
        in map (\<lambda>p. sorted_data ! percentile_index (length sorted_data) p) [1..<101])"

text \<open>The index as the specification words it: floor(n*p/100), decremented by 1 unless
  already 0, clamped to [0, n-1].\<close>

definition spec_percentile_index :: "nat \<Rightarrow> nat \<Rightarrow> nat" where
  "spec_percentile_index n p =
     (let i = n * p div 100;
          j = (if i = 0 then 0 else i - 1)
      in min j (n - 1))"

section \<open>Scalability tester: the result of a trial\<close>

text \<open>
  The shared state of \<^verbatim>\<open>ScalabilityTester\<close> as
  \<^verbatim>\<open>test_with_client_count\<close> finds it after every worker and the monitor
  have been joined, together with the two clock readings it takes.
  \<^verbatim>\<open>std::atomic<int>\<close> counters are 32-bit words, \<^verbatim>\<open>long long\<close> is a
  64-bit word, doubles are reals.
\<close>

record trial_state =
  connections :: "32 word"
  active_connections :: "32 word"
  peak_connections :: "32 word"
  total_bytes :: "64 word"
  latencies :: "real list"
  duration_ms :: int
  now_timestamp :: string

record ScalabilityResult =
  client_count :: int
  timestamp :: string
  throughput_mbps :: real
  percentiles :: "real list"
  connections_per_second :: real
  peak_concurrent_connections :: real
  success_rate :: real
  total_requests :: int
  successful_requests :: int

text \<open>\<^verbatim>\<open>result.total_requests = latencies.size();\<close> converts a 64-bit
  \<^verbatim>\<open>size_t\<close> to a 32-bit \<^verbatim>\<open>int\<close>: the low 32 bits, read as two's complement.\<close>

definition size_to_int :: "nat \<Rightarrow> int" where
  "size_to_int n = sint (word_of_nat n :: 32 word)"

text \<open>The part of \<^verbatim>\<open>test_with_client_count\<close> under the comment
  \<^verbatim>\<open>// Calculate result\<close> (tester, lines 190-207). The three ratios are quotients
  of doubles in the source and exact quotients here.\<close>

definition test_with_client_count :: "int \<Rightarrow> trial_state \<Rightarrow> ScalabilityResult" where
  "test_with_client_count count t =
     (let total = size_to_int (length (latencies t));
          successful = size_to_int (length (latencies t));
          rate = (if total > 0 then 100 else 0);
          duration_seconds = real_of_int (duration_ms t) / 1000;
          megabytes = real_of_int (sint (total_bytes t)) / (1024 * 1024)
      in \<lparr> client_count = count,
           timestamp = now_timestamp t,
           throughput_mbps = megabytes / duration_seconds,
           percentiles = calculate_all_percentiles (latencies t),
           connections_per_second =
             real_of_int (sint (connections t)) / (real_of_int (duration_ms t) / 1000),
           peak_concurrent_connections = real_of_int (sint (peak_connections t)),
           success_rate = rate,
           total_requests = total,
           successful_requests = successful \<rparr>)"

section \<open>Scalability tester: the result logger\<close>

text \<open>
  \<^verbatim>\<open>ScalabilityTester::log_result\<close> (tester, lines 378-413). The two function-local
  statics \<^verbatim>\<open>tcp_done\<close> and \<^verbatim>\<open>tcp_tests_completed\<close> live as long as the
  process and are fields of the logger state. A written line is kept as the pair of its
  Protocol field and the result whose fields follow it.
\<close>

record logger =
  log_is_open :: bool
  tcp_done :: bool
  tcp_tests_completed :: int
  log_lines :: "(string \<times> ScalabilityResult) list"

definition log_result :: "ScalabilityResult \<Rightarrow> logger \<Rightarrow> logger" where
  "log_result result lg =
     (if \<not> log_is_open lg then lg
      else
        let lg1 =
              (if \<not> tcp_done lg then
                 let completed = tcp_tests_completed lg + 1
                 in lg\<lparr> tcp_tests_completed := completed,
                        tcp_done := (if completed \<ge> 9 then True else tcp_done lg) \<rparr>
               else lg);
            protocol = (if \<not> tcp_done lg then ''TCP'' else ''UDP'')
        in lg1\<lparr> log_lines := log_lines lg1 @ [(protocol, result)] \<rparr>)"

text \<open>A run of the tester hands its results to the logger one after the other
  (\<^verbatim>\<open>run_tcp_scalability\<close>, then \<^verbatim>\<open>run_udp_scalability\<close>).\<close>

fun log_results :: "ScalabilityResult list \<Rightarrow> logger \<Rightarrow> logger" where
  "log_results [] lg = lg"
| "log_results (r # rs) lg = log_results rs (log_result r lg)"

definition new_logger :: "bool \<Rightarrow> logger" where
  "new_logger is_open =
     \<lparr> log_is_open = is_open, tcp_done = False, tcp_tests_completed = 0, log_lines = [] \<rparr>"

section \<open>Scalability tester: the client workers and the stop signal\<close>

text \<open>
  \<^verbatim>\<open>tcp_client_worker\<close> and \<^verbatim>\<open>udp_client_worker\<close> (tester, lines 257-281 and
  316-339) run the loop \<^verbatim>\<open>while (!stop_test) { send; recv; record; sleep }\<close>.
  \<^verbatim>\<open>stop_test\<close> is a \<^verbatim>\<open>std::atomic<bool>\<close> read and written sequentially
  consistently, so an execution is an interleaving of the worker's actions with the one
  store \<^verbatim>\<open>stop_test = true\<close> of the driver. The worker's actions are the load of
  the flag at the loop head, the send call, the receive call and the sleep. The system
  calls' results are supplied by the environment.
\<close>

datatype protocol = TCP | UDP

datatype worker_pc = AtLoopHead | AtSend | AtRecv | AtSleep | Exited

datatype io_result = IoOk | IoFail

record worker =
  pc :: worker_pc
  stop_test :: bool
  requests_sent :: nat
  recorded :: nat
  sent_after_stop :: nat

datatype worker_event = RaiseStop | WorkerStep io_result

text \<open>\<open>requests_sent\<close> counts the send calls, \<open>recorded\<close> the latency samples pushed,
  and \<open>sent_after_stop\<close> the send calls made while \<open>stop_test\<close> already held.
  A stream worker leaves the loop when a call fails; a datagram worker goes on to sleep.\<close>

fun worker_step :: "protocol \<Rightarrow> worker_event \<Rightarrow> worker \<Rightarrow> worker" where
  "worker_step proto RaiseStop w = w\<lparr> stop_test := True \<rparr>"
| "worker_step proto (WorkerStep r) w =
     (case pc w of
        AtLoopHead \<Rightarrow> (if \<not> stop_test w then w\<lparr> pc := AtSend \<rparr> else w\<lparr> pc := Exited \<rparr>)
      | AtSend \<Rightarrow>
          w\<lparr> pc := (if r = IoOk then AtRecv else if proto = TCP then Exited else AtSleep),
             requests_sent := requests_sent w + 1,
             sent_after_stop := (if stop_test w then sent_after_stop w + 1
                                 else sent_after_stop w) \<rparr>
      | AtRecv \<Rightarrow>
          (if r = IoOk then w\<lparr> pc := AtSleep, recorded := recorded w + 1 \<rparr>
           else if proto = TCP then w\<lparr> pc := Exited \<rparr> else w\<lparr> pc := AtSleep \<rparr>)
      | AtSleep \<Rightarrow> w\<lparr> pc := AtLoopHead \<rparr>
      | Exited \<Rightarrow> w)"

fun worker_run :: "protocol \<Rightarrow> worker_event list \<Rightarrow> worker \<Rightarrow> worker" where
  "worker_run proto [] w = w"
| "worker_run proto (e # es) w = worker_run proto es (worker_step proto e w)"

text \<open>The worker as it reaches its loop: \<^verbatim>\<open>reset_counters\<close> has cleared the flag.\<close>

definition worker_start :: worker where
  "worker_start =
     \<lparr> pc = AtLoopHead, stop_test = False, requests_sent = 0, recorded = 0,
       sent_after_stop = 0 \<rparr>"

section \<open>Echo server: data\<close>

type_synonym byte = "8 word"
type_synonym time_point = nat

record sockaddr_in =
  sin_addr :: "32 word"
  sin_port :: "16 word"

record QuicConnection =
  connection_id :: "32 word"
  client_addr :: sockaddr_in
  last_activity :: time_point
  established :: bool

text \<open>The constructor \<^verbatim>\<open>QuicConnection(id, addr)\<close>; \<open>now\<close> is the reading of the
  steady clock.\<close>

definition new_QuicConnection :: "32 word \<Rightarrow> sockaddr_in \<Rightarrow> time_point \<Rightarrow> QuicConnection" where
  "new_QuicConnection cid addr now =
     \<lparr> connection_id = cid, client_addr = addr, last_activity = now, established = False \<rparr>"

record EpollServer =
  tcp_connections :: "32 word"
  udp_packets :: "32 word"
  quic_connections :: "32 word"
  quic_connections_map :: "32 word \<rightharpoonup> QuicConnection"

definition new_EpollServer :: EpollServer where
  "new_EpollServer =
     \<lparr> tcp_connections = 0, udp_packets = 0, quic_connections = 0,
       quic_connections_map = Map.empty \<rparr>"

definition BUFFER_SIZE :: nat where
  "BUFFER_SIZE = 1024"

text \<open>
  A \<^verbatim>\<open>char\<close> array is a list of bytes of the array's length. What a fresh stack
  array holds is indeterminate, so the handlers take the arrays' contents on entry as
  arguments. \<open>recvfrom\<close> (also the model of \<^verbatim>\<open>read\<close>) stores at most \<open>len\<close> bytes of
  the datagram at the start of the array and returns their number; a longer datagram is
  cut. \<open>memcpy dst off src n\<close> stores the first \<open>n\<close> bytes of \<open>src\<close> at \<open>dst + off\<close>.
\<close>

definition recvfrom :: "byte list \<Rightarrow> nat \<Rightarrow> byte list \<Rightarrow> nat \<times> byte list" where
  "recvfrom buf len dgram =
     (let n = min (length dgram) len in (n, take n dgram @ drop n buf))"

definition memcpy :: "byte list \<Rightarrow> nat \<Rightarrow> byte list \<Rightarrow> nat \<Rightarrow> byte list" where
  "memcpy dst off src n = take off dst @ take n src @ drop (off + n) dst"

text \<open>A call of \<^verbatim>\<open>sendto\<close>: the destination, the array handed over and the byte
  count handed over (a \<^verbatim>\<open>size_t\<close>). The bytes that go on the wire are the first
  \<open>sendto_len\<close> bytes of the array; a count beyond the array reads past its end, which is
  undefined behaviour and \<open>None\<close> here.\<close>

record sendto_call =
  sendto_dest :: sockaddr_in
  sendto_buf :: "byte list"
  sendto_len :: "64 word"

definition wire_bytes :: "sendto_call \<Rightarrow> byte list option" where
  "wire_bytes c =
     (if unat (sendto_len c) \<le> length (sendto_buf c)
      then Some (take (unat (sendto_len c)) (sendto_buf c)) else None)"

section \<open>Echo server: byte order\<close>

datatype endian = LittleEndian | BigEndian

text \<open>The value of a byte sequence read most significant byte first, and the four bytes
  of a 32-bit value, most significant first.\<close>

definition be_word :: "byte list \<Rightarrow> 32 word" where
  "be_word bs = foldl (\<lambda>acc b. push_bit 8 acc OR ucast b) 0 bs"

definition be_bytes :: "32 word \<Rightarrow> byte list" where
  "be_bytes w = [ucast (drop_bit 24 w), ucast (drop_bit 16 w), ucast (drop_bit 8 w), ucast w]"

text \<open>The object representation of a \<^verbatim>\<open>uint32_t\<close> on the host (what
  \<^verbatim>\<open>memcpy\<close> from or to its address moves), and \<^verbatim>\<open>ntohl\<close>, which reads the
  object's bytes in network order.\<close>

definition host_bytes :: "endian \<Rightarrow> 32 word \<Rightarrow> byte list" where
  "host_bytes e w = (case e of BigEndian \<Rightarrow> be_bytes w | LittleEndian \<Rightarrow> rev (be_bytes w))"

definition host_word :: "endian \<Rightarrow> byte list \<Rightarrow> 32 word" where
  "host_word e bs = (case e of BigEndian \<Rightarrow> be_word bs | LittleEndian \<Rightarrow> be_word (rev bs))"

definition ntohl :: "endian \<Rightarrow> 32 word \<Rightarrow> 32 word" where
  "ntohl e w = be_word (host_bytes e w)"

section \<open>Echo server: the pseudo-QUIC handler\<close>

definition QUIC_ECHO :: "byte list" where
  "QUIC_ECHO = map (\<lambda>c. word_of_nat (of_char c)) ''QUIC Echo: ''"

text \<open>Lines 382-394 of \<^verbatim>\<open>handle_quic_connection\<close>: track or update the
  connection.\<close>

definition track_connection ::
  "32 word \<Rightarrow> sockaddr_in \<Rightarrow> time_point \<Rightarrow> EpollServer \<Rightarrow> EpollServer" where
  "track_connection cid addr now st =
     (case quic_connections_map st cid of
        None \<Rightarrow>
          st\<lparr> quic_connections_map :=
                (quic_connections_map st)(cid \<mapsto> new_QuicConnection cid addr now),
              quic_connections := quic_connections st + 1 \<rparr>
      | Some c \<Rightarrow>
          st\<lparr> quic_connections_map :=
                (quic_connections_map st)(cid \<mapsto> c\<lparr> last_activity := now \<rparr>) \<rparr>)"

text \<open>
  The connection id that the handler extracts from what \<^verbatim>\<open>recvfrom\<close> left in
  \<open>buffer\<close> (lines 375-380).
\<close>

definition extract_connection_id :: "endian \<Rightarrow> nat \<Rightarrow> byte list \<Rightarrow> 32 word" where
  "extract_connection_id e bytes_received buffer =
     (if bytes_received \<ge> 4 then ntohl e (host_word e (take 4 buffer)) else 0)"

text \<open>
  One turn of the loop of \<^verbatim>\<open>handle_quic_connection\<close> (server, lines 361-406) in
  which \<^verbatim>\<open>recvfrom\<close> delivers the datagram \<open>dgram\<close> from \<open>addr\<close>. \<open>buffer\<close> and
  \<open>response\<close> are the two arrays as the turn finds them. The lengths are computed in
  \<^verbatim>\<open>size_t\<close>, a 64-bit unsigned word: \<^verbatim>\<open>bytes_received - sizeof(uint32_t)\<close>
  wraps when fewer than 4 bytes came. The result is the server, the two arrays and the
  call of \<^verbatim>\<open>sendto\<close>, if one is made. (\<^verbatim>\<open>response\<close> is declared inside the
  loop: what it holds when a turn begins is indeterminate, and every statement below is
  for an arbitrary content.)
\<close>

definition quic_datagram ::
  "endian \<Rightarrow> time_point \<Rightarrow> sockaddr_in \<Rightarrow> byte list \<Rightarrow> byte list \<Rightarrow> byte list \<Rightarrow> EpollServer
     \<Rightarrow> EpollServer \<times> byte list \<times> byte list \<times> sendto_call option" where
  "quic_datagram e now addr dgram buffer response st =
     (let (bytes_received, buffer) = recvfrom buffer (BUFFER_SIZE - 1) dgram
      in if bytes_received > 0 then
           let buffer = buffer[bytes_received := 0];
               cid = extract_connection_id e bytes_received buffer;
               st = track_connection cid addr now st;
               response = memcpy response 0 (host_bytes e cid) 4;
               response = memcpy response 4 QUIC_ECHO 11;
               copied = min (word_of_nat bytes_received - 4)
                            (word_of_nat BUFFER_SIZE - 4 - 11 :: 64 word);
               response = memcpy response (4 + 11) (drop 4 buffer) (unat copied);
               response_size = (4 + 11 + (word_of_nat bytes_received - 4) :: 64 word)
           in (st, buffer, response,
               Some \<lparr> sendto_dest = addr, sendto_buf = response, sendto_len = response_size \<rparr>)
         else (st, buffer, response, None))"

text \<open>The server after the turn, and the call of \<^verbatim>\<open>sendto\<close> the turn makes.\<close>

definition quic_server ::
  "endian \<Rightarrow> time_point \<Rightarrow> sockaddr_in \<Rightarrow> byte list \<Rightarrow> byte list \<Rightarrow> byte list \<Rightarrow> EpollServer
     \<Rightarrow> EpollServer" where
  "quic_server e now addr dgram buffer response st =
     fst (quic_datagram e now addr dgram buffer response st)"

definition quic_sendto ::
  "endian \<Rightarrow> time_point \<Rightarrow> sockaddr_in \<Rightarrow> byte list \<Rightarrow> byte list \<Rightarrow> byte list \<Rightarrow> EpollServer
     \<Rightarrow> sendto_call option" where
  "quic_sendto e now addr dgram buffer response st =
     snd (snd (snd (quic_datagram e now addr dgram buffer response st)))"

text \<open>The connection id of a datagram as the specification reads it: the first four
  bytes as a big-endian number; the handler's own default 0 for a shorter datagram.\<close>

definition datagram_id :: "byte list \<Rightarrow> 32 word" where
  "datagram_id dgram = (if length dgram \<ge> 4 then be_word (take 4 dgram) else 0)"

text \<open>The invariant of the connection table: finitely many records, each stored under
  its own id, and the connection counter equal to their number (as a 32-bit counter
  counts).\<close>

definition table_inv :: "EpollServer \<Rightarrow> bool" where
  "table_inv st \<longleftrightarrow>
     finite (dom (quic_connections_map st)) \<and>
     (\<forall>k r. quic_connections_map st k = Some r \<longrightarrow> connection_id r = k) \<and>
     quic_connections st = word_of_nat (card (dom (quic_connections_map st)))"

text \<open>What successive calls of \<^verbatim>\<open>recvfrom\<close> return during one call of a datagram
  handler: a datagram with its sender (and the clock reading of that turn), or -1 with
  \<^verbatim>\<open>EAGAIN\<close>, or -1 with another error. An exhausted list is an empty socket
  queue, that is \<^verbatim>\<open>EAGAIN\<close>.\<close>

datatype recv_result =
  Datagram sockaddr_in "byte list" time_point
| RecvWouldBlock
| RecvError

fun handle_quic_connection ::
  "endian \<Rightarrow> recv_result list \<Rightarrow> byte list \<Rightarrow> byte list \<Rightarrow> EpollServer
     \<Rightarrow> EpollServer \<times> sendto_call list" where
  "handle_quic_connection e [] buffer response st = (st, [])"
| "handle_quic_connection e (RecvWouldBlock # rs) buffer response st = (st, [])"
| "handle_quic_connection e (RecvError # rs) buffer response st = (st, [])"
| "handle_quic_connection e (Datagram addr dgram now # rs) buffer response st =
     (case quic_datagram e now addr dgram buffer response st of
        (st1, buffer1, response1, call) \<Rightarrow>
          (case handle_quic_connection e rs buffer1 response1 st1 of
             (st2, calls) \<Rightarrow> (st2, (case call of None \<Rightarrow> [] | Some c \<Rightarrow> [c]) @ calls)))"

section \<open>Echo server: the plain-datagram handler\<close>

text \<open>
  \<^verbatim>\<open>handle_udp_packet\<close> (server, lines 322-354). Whether \<^verbatim>\<open>sendto\<close> succeeds
  is the environment's: the list \<open>send_ok\<close> gives the outcome of each call in turn
  (an exhausted list: success). A datagram of length 0 takes none of the three branches
  and the loop goes on.
\<close>

definition udp_datagram ::
  "bool \<Rightarrow> sockaddr_in \<Rightarrow> byte list \<Rightarrow> byte list \<Rightarrow> EpollServer
     \<Rightarrow> EpollServer \<times> byte list \<times> sendto_call option" where
  "udp_datagram ok addr dgram buffer st =
     (let (bytes_read, buffer) = recvfrom buffer BUFFER_SIZE dgram
      in if bytes_read > 0 then
           (if ok then
              (st\<lparr> udp_packets := udp_packets st + 1 \<rparr>, buffer,
               Some \<lparr> sendto_dest = addr, sendto_buf = buffer,
                      sendto_len = word_of_nat bytes_read \<rparr>)
            else (st, buffer, None))
         else (st, buffer, None))"


fun handle_udp_packet ::
  "recv_result list \<Rightarrow> bool list \<Rightarrow> byte list \<Rightarrow> EpollServer
     \<Rightarrow> EpollServer \<times> sendto_call list" where
  "handle_udp_packet [] oks buffer st = (st, [])"
| "handle_udp_packet (RecvWouldBlock # rs) oks buffer st = (st, [])"
| "handle_udp_packet (RecvError # rs) oks buffer st = (st, [])"
| "handle_udp_packet (Datagram addr dgram now # rs) oks buffer st =
     (let ok = (case oks of [] \<Rightarrow> True | b # _ \<Rightarrow> b);
          oks1 = (if dgram = [] then oks else tl oks)
      in case udp_datagram ok addr dgram buffer st of
           (st1, buffer1, call) \<Rightarrow>
             (case handle_udp_packet rs oks1 buffer1 st1 of
                (st2, calls) \<Rightarrow> (st2, (case call of None \<Rightarrow> [] | Some c \<Rightarrow> [c]) @ calls)))"

section \<open>Echo server: the stream handler\<close>

text \<open>
  \<^verbatim>\<open>handle_tcp_client\<close> (server, lines 284-320). The results of \<^verbatim>\<open>write\<close> are
  the environment's: \<open>w k\<close> is the result of the \<open>k\<close>-th call. \<open>Wrote m\<close> is a return
  value \<open>m \<ge> 0\<close>; \<^verbatim>\<open>write\<close> never transfers more than the count it is given, so
  the bytes transferred are \<open>m\<close>, at most that count.
\<close>

datatype write_result = Wrote nat | WriteWouldBlock | WriteBrokenPipe | WriteError


text \<open>
  The inner loop \<^verbatim>\<open>while (total_written < bytes_read)\<close>, with the bytes written so
  far in \<open>out\<close>. The result is \<open>True\<close> when the loop ends or breaks on
  \<^verbatim>\<open>EAGAIN\<close>, \<open>False\<close> when the handler closed the client and returned, then the
  number of the next call of \<^verbatim>\<open>write\<close>, then the bytes written. A call that
  returns 0 adds nothing to \<^verbatim>\<open>total_written\<close> and the loop calls
  \<^verbatim>\<open>write\<close> again; if every further call returns 0 the loop never ends, and the
  result is \<open>None\<close>.
\<close>

partial_function (option) write_loop ::
  "(nat \<Rightarrow> write_result) \<Rightarrow> nat \<Rightarrow> byte list \<Rightarrow> nat \<Rightarrow> nat \<Rightarrow> byte list
     \<Rightarrow> (bool \<times> nat \<times> byte list) option" where
  "write_loop w k buffer bytes_read total_written out =
     (if total_written < bytes_read then
        (case w k of
           Wrote m \<Rightarrow>
             write_loop w (k + 1) buffer bytes_read
               (total_written + min m (bytes_read - total_written))
               (out @ take (min m (bytes_read - total_written)) (drop total_written buffer))
         | WriteWouldBlock \<Rightarrow> Some (True, k + 1, out)
         | WriteBrokenPipe \<Rightarrow> Some (False, k + 1, out)
         | WriteError \<Rightarrow> Some (False, k + 1, out))
      else Some (True, k, out))"







section \<open>Percentile lemmas\<close>

lemma percentile_index_spec:
  assumes "n * 100 < 2 ^ 64" and "p \<le> 100"
  shows "percentile_index n p = spec_percentile_index n p"
proof -
  have "n * p \<le> n * 100" using assms(2) by simp
  then have "n * p < 2 ^ 64" using assms(1) by linarith
  then have "(n * p) mod 2 ^ 64 = n * p" by simp
  then show ?thesis
    by (auto simp: percentile_index_def spec_percentile_index_def Let_def min_def)
qed

lemma percentile_index_less:
  "0 < n \<Longrightarrow> percentile_index n p < n"
  by (auto simp: percentile_index_def Let_def)

lemma spec_percentile_index_mono:
  "p \<le> q \<Longrightarrow> spec_percentile_index n p \<le> spec_percentile_index n q"
proof -
  assume "p \<le> q"
  then have "n * p div 100 \<le> n * q div 100"
    by (simp add: div_le_mono)
  then have "(if n * p div 100 = 0 then 0 else n * p div 100 - 1)
             \<le> (if n * q div 100 = 0 then 0 else n * q div 100 - 1)"
    by (simp add: diff_le_mono)
  then show ?thesis
    unfolding spec_percentile_index_def Let_def by (rule min.mono) simp
qed

lemma spec_percentile_index_100:
  "0 < n \<Longrightarrow> spec_percentile_index n 100 = n - 1"
  by (simp add: spec_percentile_index_def Let_def)

lemma length_calculate_all_percentiles:
  "length (calculate_all_percentiles data) = 100"
  by (simp add: calculate_all_percentiles_def Let_def)

lemma nth_calculate_all_percentiles:
  assumes "data \<noteq> []" and "i < 100"
  shows "calculate_all_percentiles data ! i =
         sort data ! percentile_index (length data) (Suc i)"
proof -
  have "[1..<101] ! i = Suc i" using assms(2) by simp
  then show ?thesis
    using assms by (simp add: calculate_all_percentiles_def Let_def)
qed

lemma sorted_calculate_all_percentiles:
  fixes data :: "'a::{linorder,zero} list"
  assumes ne: "data \<noteq> []" and small: "length data * 100 < 2 ^ 64"
  shows "sorted (calculate_all_percentiles data)"
proof (unfold sorted_iff_nth_mono, intro allI impI)
  fix i j
  assume ij: "i \<le> j" and j: "j < length (calculate_all_percentiles data)"
  then have j100: "j < 100" and i100: "i < 100"
    by (simp_all add: length_calculate_all_percentiles)
  let ?n = "length data"
  have n: "0 < ?n" using ne by simp
  have idx: "percentile_index ?n (Suc i) \<le> percentile_index ?n (Suc j)"
    using small i100 j100 ij
    by (simp add: percentile_index_spec spec_percentile_index_mono)
  have "percentile_index ?n (Suc j) < length (sort data)"
    using n by (simp add: percentile_index_less)
  then have "sort data ! percentile_index ?n (Suc i) \<le> sort data ! percentile_index ?n (Suc j)"
    using idx by (simp add: sorted_nth_mono)
  then show "calculate_all_percentiles data ! i \<le> calculate_all_percentiles data ! j"
    using ne i100 j100 by (simp add: nth_calculate_all_percentiles)
qed

lemma last_sort_Max:
  fixes data :: "'a::linorder list"
  assumes "data \<noteq> []"
  shows "sort data ! (length data - 1) = Max (set data)"
proof -
  let ?s = "sort data"
  have len: "length ?s = length data" by simp
  have top: "?s ! (length data - 1) \<in> set ?s"
    using assms len by (metis diff_less length_greater_0_conv nth_mem zero_less_one)
  have "y \<le> ?s ! (length data - 1)" if "y \<in> set ?s" for y
  proof -
    from that obtain i where i: "i < length ?s" and y: "?s ! i = y"
      by (metis in_set_conv_nth)
    have "?s ! i \<le> ?s ! (length data - 1)"
      by (rule sorted_nth_mono) (use i len assms in auto)
    then show ?thesis using y by simp
  qed
  then have "Max (set ?s) = ?s ! (length data - 1)"
    using top by (intro Max_eqI) auto
  then show ?thesis by simp
qed

text \<open>
  Claim C3. The percentile computation sorts the recorded latencies ascending and, for
  each \<open>p\<close> from 1 to 100, returns the sample at index floor(n*p/100), decremented by 1
  unless already 0 and clamped to [0, n-1]. So, for a non-empty sample set,
  P1 \<le> P2 \<le> ... \<le> P100 and P100 is the maximum sample; for an empty sample set all 100
  values are 0. The sample count is one whose product with 100 fits \<^verbatim>\<open>size_t\<close>
  (fewer than \<open>2 ^ 64 / 100\<close> doubles, more than any address space holds).
\<close>

theorem calculate_all_percentiles_correct:
  fixes data :: "'a::{linorder,zero} list"
  assumes small: "length data * 100 < 2 ^ 64"
  shows "(data = [] \<longrightarrow> calculate_all_percentiles data = replicate 100 0) \<and>
         (data \<noteq> [] \<longrightarrow>
            length (calculate_all_percentiles data) = 100 \<and>
            (\<forall>p \<in> {1..100}. calculate_all_percentiles data ! (p - 1) =
                 sort data ! spec_percentile_index (length data) p) \<and>
            sorted (calculate_all_percentiles data) \<and>
            calculate_all_percentiles data ! 99 = Max (set data))"
proof (intro conjI impI ballI)
  assume "data = []"
  then show "calculate_all_percentiles data = replicate 100 0"
    by (simp add: calculate_all_percentiles_def)
next
  assume "data \<noteq> []"
  show "length (calculate_all_percentiles data) = 100"
    by (rule length_calculate_all_percentiles)
next
  fix p :: nat
  assume ne: "data \<noteq> []" and p: "p \<in> {1..100}"
  then have "p - 1 < 100" and "Suc (p - 1) = p" and "p \<le> 100" by auto
  then show "calculate_all_percentiles data ! (p - 1) =
             sort data ! spec_percentile_index (length data) p"
    using ne small nth_calculate_all_percentiles [of data "p - 1"]
    by (simp add: percentile_index_spec)
next
  assume "data \<noteq> []"
  then show "sorted (calculate_all_percentiles data)"
    using small by (rule sorted_calculate_all_percentiles)
next
  assume ne: "data \<noteq> []"
  then have "calculate_all_percentiles data ! 99 = sort data ! percentile_index (length data) 100"
    using nth_calculate_all_percentiles [of data 99] by simp
  also have "\<dots> = sort data ! (length data - 1)"
    using ne small by (simp add: percentile_index_spec spec_percentile_index_100)
  also have "\<dots> = Max (set data)"
    using ne by (rule last_sort_Max)
  finally show "calculate_all_percentiles data ! 99 = Max (set data)" .
qed

theorem calculate_all_percentiles_correct_witness:
  "length [3, 1, 2 :: int] * 100 < (2::nat) ^ 64 \<and> [3, 1, 2 :: int] \<noteq> [] \<and>
   (1::nat) \<in> {1..100} \<and> (50::nat) \<in> {1..100} \<and>
   calculate_all_percentiles [3, 1, 2 :: int] ! (1 - 1) = 1 \<and>
   calculate_all_percentiles [3, 1, 2 :: int] ! (50 - 1) = 1 \<and>
   calculate_all_percentiles [3, 1, 2 :: int] ! 99 = 3 \<and>
   sorted (calculate_all_percentiles [3, 1, 2 :: int]) \<and>
   calculate_all_percentiles ([] :: int list) = replicate 100 0"
proof -
  have small: "length [3, 1, 2 :: int] * 100 < (2::nat) ^ 64" by simp
  note full = calculate_all_percentiles_correct [OF small]
  from full have
    each: "\<forall>p \<in> {1..100}. calculate_all_percentiles [3, 1, 2 :: int] ! (p - 1) =
             sort [3, 1, 2 :: int] ! spec_percentile_index (length [3, 1, 2 :: int]) p"
    and rest: "sorted (calculate_all_percentiles [3, 1, 2 :: int])"
      "calculate_all_percentiles [3, 1, 2 :: int] ! 99 = Max (set [3, 1, 2 :: int])"
    by simp_all
  have p1: "calculate_all_percentiles [3, 1, 2 :: int] ! (1 - 1) = 1"
    using bspec [OF each, of 1] by (simp add: spec_percentile_index_def)
  have p50: "calculate_all_percentiles [3, 1, 2 :: int] ! (50 - 1) = 1"
    using bspec [OF each, of 50] by (simp add: spec_percentile_index_def)
  have empty: "calculate_all_percentiles ([] :: int list) = replicate 100 0"
    using calculate_all_percentiles_correct [of "[] :: int list"] by simp
  show ?thesis using p1 p50 rest empty by simp
qed

section \<open>Trial result lemmas\<close>

lemma size_to_int_small:
  "n < 2 ^ 31 \<Longrightarrow> size_to_int n = int n"
  unfolding size_to_int_def
  by (simp add: signed_of_nat signed_take_bit_int_eq_self)

text \<open>
  Claim C6. For every trial, the result's success rate is 100 if at least one latency
  sample was recorded during the trial, and 0 otherwise. The number of samples is one
  that \<^verbatim>\<open>int\<close> holds (below \<open>2 ^ 31\<close>).
\<close>

theorem success_rate_binary:
  assumes "length (latencies t) < 2 ^ 31"
  shows "success_rate (test_with_client_count c t) = (if latencies t \<noteq> [] then 100 else 0)"
  using assms
  by (simp add: test_with_client_count_def Let_def size_to_int_small)

theorem success_rate_binary_witness:
  "length (latencies \<lparr> connections = 10, active_connections = 0, peak_connections = 10,
       total_bytes = 4096, latencies = [1.5, 0.25], duration_ms = 15000,
       now_timestamp = ''2025-01-01 00:00:00.000'' \<rparr>) < (2::nat) ^ 31 \<and>
   success_rate (test_with_client_count 10
     \<lparr> connections = 10, active_connections = 0, peak_connections = 10,
       total_bytes = 4096, latencies = [1.5, 0.25], duration_ms = 15000,
       now_timestamp = ''2025-01-01 00:00:00.000'' \<rparr>) = 100 \<and>
   success_rate (test_with_client_count 10
     \<lparr> connections = 10, active_connections = 0, peak_connections = 0,
       total_bytes = 0, latencies = [], duration_ms = 15000,
       now_timestamp = ''2025-01-01 00:00:00.000'' \<rparr>) = 0"
  using success_rate_binary [of "\<lparr> connections = 10, active_connections = 0, peak_connections = 10,
       total_bytes = 4096, latencies = [1.5, 0.25], duration_ms = 15000,
       now_timestamp = ''2025-01-01 00:00:00.000'' \<rparr>" 10]
     success_rate_binary [of "\<lparr> connections = 10, active_connections = 0, peak_connections = 0,
       total_bytes = 0, latencies = [], duration_ms = 15000,
       now_timestamp = ''2025-01-01 00:00:00.000'' \<rparr>" 10]
  by simp

text \<open>
  Claim C9. In every result the tester computes, the total-requests field equals the
  successful-requests field, and the success rate is 100 exactly when the total is
  positive; both fields are the number of recorded latency samples (a number that
  \<^verbatim>\<open>int\<close> holds).
\<close>

theorem total_requests_eq_successful_requests:
  "total_requests (test_with_client_count c t) = successful_requests (test_with_client_count c t) \<and>
   (success_rate (test_with_client_count c t) = 100
      \<longleftrightarrow> total_requests (test_with_client_count c t) > 0) \<and>
   (success_rate (test_with_client_count c t) = 100
      \<or> success_rate (test_with_client_count c t) = 0) \<and>
   (length (latencies t) < 2 ^ 31 \<longrightarrow>
      total_requests (test_with_client_count c t) = int (length (latencies t)) \<and>
      successful_requests (test_with_client_count c t) = int (length (latencies t)))"
  by (simp add: test_with_client_count_def Let_def size_to_int_small)

theorem total_requests_eq_successful_requests_witness:
  "length [1.5, 0.25 :: real] < (2::nat) ^ 31 \<and>
   total_requests (test_with_client_count 10
     \<lparr> connections = 10, active_connections = 0, peak_connections = 10,
       total_bytes = 4096, latencies = [1.5, 0.25], duration_ms = 15000,
       now_timestamp = ''2025-01-01 00:00:00.000'' \<rparr>) = 2 \<and>
   successful_requests (test_with_client_count 10
     \<lparr> connections = 10, active_connections = 0, peak_connections = 10,
       total_bytes = 4096, latencies = [1.5, 0.25], duration_ms = 15000,
       now_timestamp = ''2025-01-01 00:00:00.000'' \<rparr>) = 2 \<and>
   success_rate (test_with_client_count 10
     \<lparr> connections = 10, active_connections = 0, peak_connections = 10,
       total_bytes = 4096, latencies = [1.5, 0.25], duration_ms = 15000,
       now_timestamp = ''2025-01-01 00:00:00.000'' \<rparr>) = 100"
  using total_requests_eq_successful_requests [of 10 "\<lparr> connections = 10, active_connections = 0,
       peak_connections = 10, total_bytes = 4096, latencies = [1.5, 0.25], duration_ms = 15000,
       now_timestamp = ''2025-01-01 00:00:00.000'' \<rparr>"]
  by simp

section \<open>Result logger lemmas\<close>

lemma log_results_closed:
  "\<not> log_is_open lg \<Longrightarrow> log_results rs lg = lg"
  by (induction rs arbitrary: lg) (simp_all add: log_result_def)

lemma log_results_lines:
  assumes "log_is_open lg" and "0 \<le> tcp_tests_completed lg"
    and "tcp_done lg \<longleftrightarrow> 9 \<le> tcp_tests_completed lg"
  shows "log_lines (log_results rs lg) =
         log_lines lg @
         zip (replicate (min (9 - nat (tcp_tests_completed lg)) (length rs)) ''TCP'' @
              replicate (length rs - (9 - nat (tcp_tests_completed lg))) ''UDP'') rs"
  using assms
proof (induction rs arbitrary: lg)
  case Nil
  then show ?case by simp
next
  case (Cons r rs)
  show ?case
  proof (cases "tcp_done lg")
    case True
    let ?lg = "log_result r lg"
    have step: "log_is_open ?lg" "tcp_tests_completed ?lg = tcp_tests_completed lg"
      "tcp_done ?lg" "log_lines ?lg = log_lines lg @ [(''UDP'', r)]"
      using True Cons.prems by (simp_all add: log_result_def Let_def)
    have k: "9 - nat (tcp_tests_completed lg) = 0"
      using True Cons.prems by simp
    have "log_lines (log_results rs ?lg) = log_lines ?lg @
         zip (replicate (min (9 - nat (tcp_tests_completed ?lg)) (length rs)) ''TCP'' @
              replicate (length rs - (9 - nat (tcp_tests_completed ?lg))) ''UDP'') rs"
      by (rule Cons.IH) (use step Cons.prems True in simp_all)
    then show ?thesis
      using step k by simp
  next
    case False
    let ?lg = "log_result r lg"
    have lt: "tcp_tests_completed lg < 9" using False Cons.prems by simp
    have step: "log_is_open ?lg" "tcp_tests_completed ?lg = tcp_tests_completed lg + 1"
      "tcp_done ?lg \<longleftrightarrow> 9 \<le> tcp_tests_completed lg + 1"
      "log_lines ?lg = log_lines lg @ [(''TCP'', r)]"
      using False Cons.prems by (simp_all add: log_result_def Let_def)
    define j where "j = 8 - nat (tcp_tests_completed lg)"
    have j: "9 - nat (tcp_tests_completed lg) = Suc j"
      "9 - nat (tcp_tests_completed lg + 1) = j"
      using lt Cons.prems(2) unfolding j_def by linarith+
    have "log_lines (log_results rs ?lg) = log_lines ?lg @
         zip (replicate (min (9 - nat (tcp_tests_completed ?lg)) (length rs)) ''TCP'' @
              replicate (length rs - (9 - nat (tcp_tests_completed ?lg))) ''UDP'') rs"
      by (rule Cons.IH) (use step Cons.prems in simp_all)
    then show ?thesis
      using step j by simp
  qed
qed

text \<open>
  Claim C10. The Protocol field of each logged line is determined by call order alone:
  in every run (with the log file open) the first nine results handed to the logger are
  labelled "TCP" and every later one "UDP", whatever the results are; each result gives
  one line, in call order. (With the log file not open the logger returns at once and no
  line is written.)
\<close>

theorem log_result_labels_by_call_order:
  "map fst (log_lines (log_results rs (new_logger True))) =
     replicate (min 9 (length rs)) ''TCP'' @ replicate (length rs - 9) ''UDP'' \<and>
   map snd (log_lines (log_results rs (new_logger True))) = rs \<and>
   log_lines (log_results rs (new_logger False)) = []"
proof -
  have "log_lines (log_results rs (new_logger True)) =
        zip (replicate (min 9 (length rs)) ''TCP'' @ replicate (length rs - 9) ''UDP'') rs"
    using log_results_lines [of "new_logger True" rs] by (simp add: new_logger_def)
  moreover have "log_lines (log_results rs (new_logger False)) = []"
    by (simp add: log_results_closed new_logger_def)
  ultimately show ?thesis by (simp add: min_def)
qed

section \<open>Byte order lemmas\<close>

lemma length_be_bytes: "length (be_bytes w) = 4"
  by (simp add: be_bytes_def)

lemma length_host_bytes: "length (host_bytes e w) = 4"
  by (cases e) (simp_all add: host_bytes_def length_be_bytes)

lemma be_word_4:
  "be_word [b0, b1, b2, b3] =
     push_bit 24 (ucast b0) OR push_bit 16 (ucast b1) OR push_bit 8 (ucast b2) OR ucast b3"
  by (simp add: be_word_def push_bit_or push_bit_push_bit ac_simps)

lemma be_bytes_be_word:
  "be_bytes (be_word [b0, b1, b2, b3]) = [b0, b1, b2, b3]"
  unfolding be_bytes_def be_word_4
  apply simp
  apply (intro conjI; rule bit_word_eqI)
     apply (auto simp: bit_simps dest: bit_imp_le_length)
  done

lemma be_word_be_bytes:
  "be_word (be_bytes w) = w"
  unfolding be_bytes_def be_word_4
  apply (rule bit_word_eqI)
  subgoal for n
    by (cases "n < 8"; cases "n < 16"; cases "n < 24") (auto simp: bit_simps)
  done

lemma ntohl_host_word:
  assumes "length bs = 4"
  shows "ntohl e (host_word e bs) = be_word bs"
proof -
  from assms obtain b0 b1 b2 b3 where bs: "bs = [b0, b1, b2, b3]"
    by (auto simp: length_Suc_conv numeral_eq_Suc)
  show ?thesis
    by (cases e)
       (simp_all add: bs ntohl_def host_word_def host_bytes_def be_bytes_be_word be_word_be_bytes)
qed

lemma host_bytes_be_word:
  assumes "length bs = 4"
  shows "host_bytes e (be_word bs) = (case e of BigEndian \<Rightarrow> bs | LittleEndian \<Rightarrow> rev bs)"
proof -
  from assms obtain b0 b1 b2 b3 where bs: "bs = [b0, b1, b2, b3]"
    by (auto simp: length_Suc_conv numeral_eq_Suc)
  show ?thesis
    by (cases e) (simp_all add: bs host_bytes_def be_bytes_be_word)
qed

lemma host_bytes_0: "host_bytes e 0 = [0, 0, 0, 0]"
  by (cases e) (simp_all add: host_bytes_def be_bytes_def)

section \<open>Pseudo-QUIC handler lemmas\<close>

lemma length_QUIC_ECHO: "length QUIC_ECHO = 11"
  by (simp add: QUIC_ECHO_def)

lemma extract_connection_id_recv:
  assumes "n = min (length dgram) (BUFFER_SIZE - 1)"
  shows "extract_connection_id e n ((take n dgram @ drop n buffer)[n := 0]) = datagram_id dgram"
proof (cases "4 \<le> length dgram")
  case True
  then have n4: "4 \<le> n" using assms by (simp add: BUFFER_SIZE_def)
  have "take 4 ((take n dgram @ drop n buffer)[n := 0]) = take 4 (take n dgram @ drop n buffer)"
    using n4 by (simp add: take_update_cancel)
  also have "\<dots> = take 4 dgram"
    using n4 True assms by (simp add: min_def)
  finally have t: "take 4 ((take n dgram @ drop n buffer)[n := 0]) = take 4 dgram" .
  have "length (take 4 dgram) = 4" using True by simp
  then show ?thesis
    using n4 True t by (simp add: extract_connection_id_def datagram_id_def ntohl_host_word)
next
  case False
  then have "n < 4" using assms by (simp add: BUFFER_SIZE_def)
  then show ?thesis
    using False by (simp add: extract_connection_id_def datagram_id_def)
qed

lemma quic_datagram_unfold:
  assumes "n = min (length dgram) (BUFFER_SIZE - 1)"
    and "buffer1 = (take n dgram @ drop n buffer)[n := 0]"
    and "cid = extract_connection_id e n buffer1"
  shows "quic_datagram e now addr dgram buffer response st =
     (if n > 0 then
        (track_connection cid addr now st, buffer1,
         memcpy (memcpy (memcpy response 0 (host_bytes e cid) 4) 4 QUIC_ECHO 11) (4 + 11)
           (drop 4 buffer1)
           (unat (min (word_of_nat n - 4) (word_of_nat BUFFER_SIZE - 4 - 11 :: 64 word))),
         Some \<lparr> sendto_dest = addr,
                sendto_buf =
                  memcpy (memcpy (memcpy response 0 (host_bytes e cid) 4) 4 QUIC_ECHO 11) (4 + 11)
                    (drop 4 buffer1)
                    (unat (min (word_of_nat n - 4) (word_of_nat BUFFER_SIZE - 4 - 11 :: 64 word))),
                sendto_len = (4 + 11 + (word_of_nat n - 4) :: 64 word) \<rparr>)
      else (st, take n dgram @ drop n buffer, response, None))"
  unfolding assms quic_datagram_def recvfrom_def Let_def prod.case
  by (rule refl)

lemma recv_count_zero:
  "min (length dgram) (BUFFER_SIZE - 1) = 0 \<longleftrightarrow> dgram = []"
  by (auto simp: BUFFER_SIZE_def min_def)

lemma quic_server_eq:
  "quic_server e now addr dgram buffer response st =
     (if dgram = [] then st else track_connection (datagram_id dgram) addr now st)"
proof -
  define n where "n = min (length dgram) (BUFFER_SIZE - 1)"
  define buffer1 where "buffer1 = (take n dgram @ drop n buffer)[n := 0]"
  define cid where "cid = extract_connection_id e n buffer1"
  have n0: "n = 0 \<longleftrightarrow> dgram = []" unfolding n_def by (rule recv_count_zero)
  have cid: "cid = datagram_id dgram"
    unfolding cid_def buffer1_def by (rule extract_connection_id_recv [OF n_def])
  show ?thesis
    unfolding quic_server_def quic_datagram_unfold [OF n_def buffer1_def cid_def]
    using n0 cid by auto
qed

lemma quic_sendto_empty:
  "quic_sendto e now addr [] buffer response st = None"
  by (simp add: quic_sendto_def quic_datagram_def recvfrom_def Let_def)

lemma size_t_response_size:
  assumes "n < 2 ^ 63"
  shows "unat (4 + 11 + (word_of_nat n - 4) :: 64 word) = n + 11"
proof -
  have eq: "(4 + 11 + (word_of_nat n - 4) :: 64 word) = word_of_nat (n + 11)"
    by simp
  have "unat (word_of_nat (n + 11) :: 64 word) = n + 11"
    using assms unfolding unat_of_nat by simp
  then show ?thesis unfolding eq .
qed

lemma size_t_copied:
  assumes "n \<le> 1023"
  shows "unat (min (word_of_nat n - 4) (word_of_nat BUFFER_SIZE - 4 - 11 :: 64 word)) =
         (if n < 4 then 1009 else min (n - 4) 1009)"
proof (cases "n < 4")
  case True
  then consider "n = 0" | "n = 1" | "n = 2" | "n = 3" by linarith
  then show ?thesis by cases (simp_all add: BUFFER_SIZE_def)
next
  case False
  then have "(word_of_nat n - 4 :: 64 word) = word_of_nat (n - 4)" by simp
  moreover have "unat (word_of_nat (n - 4) :: 64 word) = n - 4"
    using assms unfolding unat_of_nat by simp
  ultimately have u: "unat (word_of_nat n - 4 :: 64 word) = n - 4" by simp
  have "unat (min (word_of_nat n - 4) (1009 :: 64 word)) = min (n - 4) 1009"
    using u by (simp add: min_def word_le_nat_alt)
  then show ?thesis using False by (simp add: BUFFER_SIZE_def)
qed


lemma response_layout:
  assumes "length idb = 4"
  shows "memcpy (memcpy (memcpy response 0 idb 4) 4 QUIC_ECHO 11) (4 + 11) src c =
         idb @ QUIC_ECHO @ take c src @ drop (15 + c) response"
proof -
  have a: "memcpy response 0 idb 4 = idb @ drop 4 response"
    using assms by (simp add: memcpy_def)
  have b: "memcpy (idb @ drop 4 response) 4 QUIC_ECHO 11 = idb @ QUIC_ECHO @ drop 15 response"
    using assms by (simp add: memcpy_def length_QUIC_ECHO)
  have c: "memcpy (idb @ QUIC_ECHO @ drop 15 response) (4 + 11) src c =
           idb @ QUIC_ECHO @ take c src @ drop (15 + c) response"
    using assms by (simp add: memcpy_def length_QUIC_ECHO add.commute)
  show ?thesis unfolding a b c ..
qed

lemma quic_sendto_eq:
  assumes "dgram \<noteq> []"
    and "n = min (length dgram) (BUFFER_SIZE - 1)"
    and "buffer1 = (take n dgram @ drop n buffer)[n := 0]"
    and "c = (if n < 4 then 1009 else min (n - 4) 1009)"
  shows "quic_sendto e now addr dgram buffer response st =
     Some \<lparr> sendto_dest = addr,
            sendto_buf = host_bytes e (datagram_id dgram) @ QUIC_ECHO @ take c (drop 4 buffer1) @
                         drop (15 + c) response,
            sendto_len = (4 + 11 + (word_of_nat n - 4) :: 64 word) \<rparr>"
proof -
  define cid where "cid = extract_connection_id e n buffer1"
  have n0: "0 < n" using assms(1,2) recv_count_zero [of dgram] by simp
  have n1023: "n \<le> 1023" using assms(2) by (simp add: BUFFER_SIZE_def)
  have cid: "cid = datagram_id dgram"
    unfolding cid_def assms(3) by (rule extract_connection_id_recv [OF assms(2)])
  have cp: "unat (min (word_of_nat n - 4) (word_of_nat BUFFER_SIZE - 4 - 11 :: 64 word)) = c"
    unfolding assms(4) by (rule size_t_copied [OF n1023])
  show ?thesis
    unfolding quic_sendto_def quic_datagram_unfold [OF assms(2,3) cid_def] cp
      response_layout [OF length_host_bytes]
    using n0 cid by simp
qed

lemma buffer1_prefix:
  assumes "n = min (length dgram) (BUFFER_SIZE - 1)"
  shows "take n ((take n dgram @ drop n buffer)[n := 0]) = take n dgram"
proof -
  have "length (take n dgram) = n" using assms by simp
  then show ?thesis by (simp add: take_update_cancel)
qed

lemma QUIC_ECHO_bytes:
  "QUIC_ECHO = [81, 85, 73, 67, 32, 69, 99, 104, 111, 58, 32]"
  by (simp add: QUIC_ECHO_def)

lemma quic_sendto_shape:
  assumes "dgram \<noteq> []"
    and "n = min (length dgram) (BUFFER_SIZE - 1)"
    and "buffer1 = (take n dgram @ drop n buffer)[n := 0]"
    and "c = (if n < 4 then 1009 else min (n - 4) 1009)"
  obtains w where
    "quic_sendto e now addr dgram buffer response st =
       Some \<lparr> sendto_dest = addr,
              sendto_buf = host_bytes e (datagram_id dgram) @ QUIC_ECHO @
                           take c (drop 4 buffer1) @ drop (15 + c) response,
              sendto_len = w \<rparr>"
    and "unat w = n + 11"
proof -
  have "n < 2 ^ 63" by (simp add: assms(2) BUFFER_SIZE_def min_def)
  then have "unat (4 + 11 + (word_of_nat n - 4) :: 64 word) = n + 11"
    by (rule size_t_response_size)
  then show thesis
    using that quic_sendto_eq [OF assms] by blast
qed

lemma quic_sendto_len:
  assumes "dgram \<noteq> []"
  shows "\<exists>c. quic_sendto e now addr dgram buffer response st = Some c \<and>
             sendto_dest c = addr \<and>
             unat (sendto_len c) = min (length dgram) (BUFFER_SIZE - 1) + 11"
proof -
  define n where "n = min (length dgram) (BUFFER_SIZE - 1)"
  obtain w where
    "quic_sendto e now addr dgram buffer response st =
       Some \<lparr> sendto_dest = addr,
              sendto_buf = host_bytes e (datagram_id dgram) @ QUIC_ECHO @
                           take (if n < 4 then 1009 else min (n - 4) 1009)
                             (drop 4 ((take n dgram @ drop n buffer)[n := 0])) @
                           drop (15 + (if n < 4 then 1009 else min (n - 4) 1009)) response,
              sendto_len = w \<rparr>"
    and "unat w = n + 11"
    by (rule quic_sendto_shape [OF assms n_def refl refl])
  then show ?thesis unfolding n_def by simp
qed

lemma quic_wire_full:
  assumes "4 \<le> length dgram" and "length dgram \<le> 1013"
  shows "\<exists>c. quic_sendto e now addr dgram buffer response st = Some c \<and>
             sendto_dest c = addr \<and>
             wire_bytes c = Some (host_bytes e (datagram_id dgram) @ QUIC_ECHO @ drop 4 dgram)"
proof -
  define n where "n = min (length dgram) (BUFFER_SIZE - 1)"
  define buffer1 where "buffer1 = (take n dgram @ drop n buffer)[n := 0]"
  have n: "n = length dgram" using assms by (simp add: n_def BUFFER_SIZE_def)
  have ne: "dgram \<noteq> []" using assms by auto
  have c: "n - 4 = (if n < 4 then 1009 else min (n - 4) 1009)"
    using assms n by simp
  have "take (n - 4) (drop 4 buffer1) = drop 4 (take n buffer1)"
    using assms n by (simp add: drop_take)
  also have "\<dots> = drop 4 (take n dgram)"
    unfolding buffer1_def buffer1_prefix [OF n_def] ..
  finally have pay: "take (n - 4) (drop 4 buffer1) = drop 4 dgram" using n by simp
  obtain w where call: "quic_sendto e now addr dgram buffer response st =
       Some \<lparr> sendto_dest = addr,
              sendto_buf = host_bytes e (datagram_id dgram) @ QUIC_ECHO @
                           take (n - 4) (drop 4 buffer1) @ drop (15 + (n - 4)) response,
              sendto_len = w \<rparr>"
    and w: "unat w = n + 11"
    by (rule quic_sendto_shape [OF ne n_def buffer1_def c])
  have sz: "length (drop 4 dgram) = n - 4" using n by simp
  have "wire_bytes \<lparr> sendto_dest = addr,
              sendto_buf = host_bytes e (datagram_id dgram) @ QUIC_ECHO @
                           drop 4 dgram @ drop (15 + (n - 4)) response,
              sendto_len = w \<rparr> = Some (host_bytes e (datagram_id dgram) @ QUIC_ECHO @ drop 4 dgram)"
    using assms n sz w
    by (simp add: wire_bytes_def length_host_bytes length_QUIC_ECHO)
  then show ?thesis
    unfolding call pay by simp
qed

lemma take_past_prefix:
  "length p \<le> k \<Longrightarrow> k \<le> length p + length q \<Longrightarrow> take k (p @ q @ r) = p @ take (k - length p) q"
  by simp

lemma quic_wire_short:
  assumes "1 \<le> length dgram" and "length dgram \<le> 3"
  shows "\<exists>c. quic_sendto e now addr dgram buffer response st = Some c \<and>
             sendto_dest c = addr \<and>
             unat (sendto_len c) = length dgram + 11 \<and>
             wire_bytes c = Some ([0, 0, 0, 0] @ take (length dgram + 7) QUIC_ECHO)"
proof -
  define n where "n = min (length dgram) (BUFFER_SIZE - 1)"
  define buffer1 where "buffer1 = (take n dgram @ drop n buffer)[n := 0]"
  have n: "n = length dgram" using assms by (simp add: n_def BUFFER_SIZE_def)
  have ne: "dgram \<noteq> []" using assms by auto
  have c: "1009 = (if n < 4 then 1009 else min (n - 4) 1009)"
    using assms n by simp
  have id0: "datagram_id dgram = 0" using assms by (simp add: datagram_id_def)
  obtain w where call: "quic_sendto e now addr dgram buffer response st =
       Some \<lparr> sendto_dest = addr,
              sendto_buf = host_bytes e (datagram_id dgram) @ QUIC_ECHO @
                           take 1009 (drop 4 buffer1) @ drop (15 + 1009) response,
              sendto_len = w \<rparr>"
    and w: "unat w = n + 11"
    by (rule quic_sendto_shape [OF ne n_def buffer1_def c])
  have "wire_bytes \<lparr> sendto_dest = addr,
              sendto_buf = [0, 0, 0, 0] @ QUIC_ECHO @
                           take 1009 (drop 4 buffer1) @ drop (15 + 1009) response,
              sendto_len = w \<rparr> = Some ([0, 0, 0, 0] @ take (n + 7) QUIC_ECHO)"
    using assms n w
      take_past_prefix [of "[0, 0, 0, 0]" "n + 11" QUIC_ECHO
        "take 1009 (drop 4 buffer1) @ drop (15 + 1009) response"]
    by (simp add: wire_bytes_def length_QUIC_ECHO add.commute)
  then show ?thesis
    unfolding call id0 host_bytes_0 using w n by simp
qed

lemma quic_overread:
  assumes "1014 \<le> length dgram"
    and "length buffer = BUFFER_SIZE" and "length response = BUFFER_SIZE"
  shows "\<exists>c. quic_sendto e now addr dgram buffer response st = Some c \<and>
             length (sendto_buf c) = BUFFER_SIZE \<and>
             unat (sendto_len c) = min (length dgram) 1023 + 11 \<and>
             wire_bytes c = None"
proof -
  define n where "n = min (length dgram) (BUFFER_SIZE - 1)"
  define buffer1 where "buffer1 = (take n dgram @ drop n buffer)[n := 0]"
  have n: "1014 \<le> n" "n \<le> 1023" "n \<le> length dgram" "n = min (length dgram) 1023"
    using assms by (simp_all add: n_def BUFFER_SIZE_def)
  have ne: "dgram \<noteq> []" using assms by auto
  have c: "1009 = (if n < 4 then 1009 else min (n - 4) 1009)"
    using n by simp
  have b1: "length buffer1 = 1024"
    using assms n by (simp add: buffer1_def BUFFER_SIZE_def)
  obtain w where call: "quic_sendto e now addr dgram buffer response st =
       Some \<lparr> sendto_dest = addr,
              sendto_buf = host_bytes e (datagram_id dgram) @ QUIC_ECHO @
                           take 1009 (drop 4 buffer1) @ drop (15 + 1009) response,
              sendto_len = w \<rparr>"
    and w: "unat w = n + 11"
    by (rule quic_sendto_shape [OF ne n_def buffer1_def c])
  show ?thesis
    unfolding call
    using assms n b1 w
    by (simp add: wire_bytes_def length_QUIC_ECHO length_host_bytes BUFFER_SIZE_def)
qed

text \<open>The copies stay inside the two arrays: both keep their size.\<close>

lemma quic_datagram_arrays:
  assumes "length buffer = BUFFER_SIZE" and "length response = BUFFER_SIZE"
    and "quic_datagram e now addr dgram buffer response st = (st1, buffer1, response1, call)"
  shows "length buffer1 = BUFFER_SIZE \<and> length response1 = BUFFER_SIZE"
proof -
  define n where "n = min (length dgram) (BUFFER_SIZE - 1)"
  define b1 where "b1 = (take n dgram @ drop n buffer)[n := 0]"
  define cid where "cid = extract_connection_id e n b1"
  have n: "n \<le> 1023" "n \<le> length dgram" by (simp_all add: n_def BUFFER_SIZE_def)
  have lb: "length (take n dgram @ drop n buffer) = 1024" "length b1 = 1024"
    using assms(1) n by (simp_all add: b1_def BUFFER_SIZE_def)
  have cp: "unat (min (word_of_nat n - 4) (word_of_nat BUFFER_SIZE - 4 - 11 :: 64 word)) \<le> 1009"
    unfolding size_t_copied [OF n(1)] by simp
  have "length (memcpy (memcpy (memcpy response 0 (host_bytes e cid) 4) 4 QUIC_ECHO 11) (4 + 11)
           (drop 4 b1) c) = 1024" if "c \<le> 1009" for c
    unfolding response_layout [OF length_host_bytes]
    using that assms(2) lb
    by (simp add: length_host_bytes length_QUIC_ECHO BUFFER_SIZE_def)
  then show ?thesis
    using assms(2,3) lb cp
    unfolding quic_datagram_unfold [OF n_def b1_def cid_def]
    by (auto simp: BUFFER_SIZE_def split: if_splits)
qed

section \<open>Connection table lemmas\<close>

lemma table_inv_new: "table_inv new_EpollServer"
  by (simp add: table_inv_def new_EpollServer_def)

lemma track_connection_None:
  assumes "quic_connections_map st cid = None"
  shows "quic_connections_map (track_connection cid addr now st) =
           (quic_connections_map st)(cid \<mapsto> new_QuicConnection cid addr now)"
    and "quic_connections (track_connection cid addr now st) = quic_connections st + 1"
  using assms by (simp_all add: track_connection_def)

lemma track_connection_Some:
  assumes "quic_connections_map st cid = Some r"
  shows "quic_connections_map (track_connection cid addr now st) =
           (quic_connections_map st)(cid \<mapsto> r\<lparr> last_activity := now \<rparr>)"
    and "quic_connections (track_connection cid addr now st) = quic_connections st"
  using assms by (simp_all add: track_connection_def)

lemma track_connection_other:
  "k \<noteq> cid \<Longrightarrow> quic_connections_map (track_connection cid addr now st) k = quic_connections_map st k"
  by (simp add: track_connection_def split: option.splits)

lemma track_connection_inv:
  assumes "table_inv st"
  shows "table_inv (track_connection cid addr now st)"
proof (cases "quic_connections_map st cid")
  case None
  then have notin: "cid \<notin> dom (quic_connections_map st)" by (simp add: domIff)
  have fin: "finite (dom (quic_connections_map st))" using assms by (simp add: table_inv_def)
  have "card (insert cid (dom (quic_connections_map st))) = Suc (card (dom (quic_connections_map st)))"
    using fin notin by simp
  then show ?thesis
    using assms None
    by (auto simp: table_inv_def track_connection_None new_QuicConnection_def)
next
  case (Some r)
  then have "insert cid (dom (quic_connections_map st)) = dom (quic_connections_map st)"
    by auto
  then show ?thesis
    using assms Some
    by (auto simp: table_inv_def track_connection_Some)
qed

lemma track_connection_keeps:
  assumes "quic_connections_map st k = Some r"
  shows "\<exists>r'. quic_connections_map (track_connection cid addr now st) k = Some r' \<and>
              connection_id r' = connection_id r \<and> client_addr r' = client_addr r \<and>
              established r' = established r \<and>
              (r' = r \<or> (k = cid \<and> r' = r\<lparr> last_activity := now \<rparr>))"
proof (cases "k = cid")
  case True
  then show ?thesis using assms by (simp add: track_connection_Some)
next
  case False
  then show ?thesis using assms by (simp add: track_connection_other)
qed

lemma quic_server_inv:
  "table_inv st \<Longrightarrow> table_inv (quic_server e now addr dgram buffer response st)"
  by (simp add: quic_server_eq track_connection_inv)

lemma quic_server_keeps:
  assumes "quic_connections_map st k = Some r"
  shows "\<exists>r'. quic_connections_map (quic_server e now addr dgram buffer response st) k = Some r' \<and>
              connection_id r' = connection_id r \<and> client_addr r' = client_addr r \<and>
              established r' = established r \<and>
              (r' = r \<or> (k = datagram_id dgram \<and> r' = r\<lparr> last_activity := now \<rparr>))"
  using assms track_connection_keeps [OF assms] by (simp add: quic_server_eq)

lemma handle_quic_connection_Datagram:
  "\<exists>buffer1 response1.
     fst (handle_quic_connection e (Datagram addr dgram now # rs) buffer response st) =
     fst (handle_quic_connection e rs buffer1 response1
            (quic_server e now addr dgram buffer response st))"
proof -
  obtain st1 buffer1 response1 call where
    q: "quic_datagram e now addr dgram buffer response st = (st1, buffer1, response1, call)"
    by (cases "quic_datagram e now addr dgram buffer response st") auto
  then have "fst (handle_quic_connection e (Datagram addr dgram now # rs) buffer response st) =
     fst (handle_quic_connection e rs buffer1 response1
            (quic_server e now addr dgram buffer response st))"
    by (simp add: quic_server_def split: prod.splits)
  then show ?thesis by blast
qed

lemma handle_quic_connection_inv:
  "table_inv st \<Longrightarrow> table_inv (fst (handle_quic_connection e rs buffer response st))"
proof (induction rs arbitrary: buffer response st)
  case Nil
  then show ?case by simp
next
  case (Cons r rs)
  show ?case
  proof (cases r)
    case (Datagram addr dgram now)
    obtain buffer1 response1 where
      "fst (handle_quic_connection e (Datagram addr dgram now # rs) buffer response st) =
       fst (handle_quic_connection e rs buffer1 response1
              (quic_server e now addr dgram buffer response st))"
      using handle_quic_connection_Datagram by blast
    then show ?thesis
      using Datagram Cons.IH [OF quic_server_inv [OF Cons.prems]] by simp
  qed (use Cons.prems in simp_all)
qed

lemma handle_quic_connection_keeps:
  assumes "quic_connections_map st k = Some r"
  shows "\<exists>r'. quic_connections_map (fst (handle_quic_connection e rs buffer response st)) k = Some r' \<and>
              connection_id r' = connection_id r \<and> client_addr r' = client_addr r \<and>
              established r' = established r"
  using assms
proof (induction rs arbitrary: buffer response st r)
  case Nil
  then show ?case by simp
next
  case (Cons x rs)
  show ?case
  proof (cases x)
    case (Datagram addr dgram now)
    obtain buffer1 response1 where step:
      "fst (handle_quic_connection e (Datagram addr dgram now # rs) buffer response st) =
       fst (handle_quic_connection e rs buffer1 response1
              (quic_server e now addr dgram buffer response st))"
      using handle_quic_connection_Datagram by blast
    obtain r1 where r1:
      "quic_connections_map (quic_server e now addr dgram buffer response st) k = Some r1"
      "connection_id r1 = connection_id r" "client_addr r1 = client_addr r"
      "established r1 = established r"
      using quic_server_keeps [OF Cons.prems] by blast
    show ?thesis
      using Cons.IH [OF r1(1), of buffer1 response1] r1(2-4) Datagram step by simp
  qed (use Cons.prems in simp_all)
qed

section \<open>Pseudo-QUIC handler: the claims\<close>

lemma quic_response_bytes:
  assumes "4 \<le> length dgram" and "length dgram \<le> 1013"
  shows "\<exists>c. quic_sendto e now addr dgram buffer response st = Some c \<and>
             sendto_dest c = addr \<and>
             wire_bytes c =
               Some ((case e of BigEndian \<Rightarrow> take 4 dgram | LittleEndian \<Rightarrow> rev (take 4 dgram))
                     @ QUIC_ECHO @ drop 4 dgram)"
proof -
  have "length (take 4 dgram) = 4" using assms by simp
  then have "host_bytes e (datagram_id dgram) =
             (case e of BigEndian \<Rightarrow> take 4 dgram | LittleEndian \<Rightarrow> rev (take 4 dgram))"
    using assms by (simp add: datagram_id_def host_bytes_be_word)
  then show ?thesis
    using quic_wire_full [OF assms, of e now addr buffer response st] by simp
qed

text \<open>
  Claim C1, at the input where the code leaves it. On a little-endian host the datagram
  00 00 00 07 'h' 'i' is answered by 07 00 00 00, the marker and "hi": the id bytes come
  back in host order, reversed, not equal to the first four bytes of the request.
\<close>

theorem quic_response_id_reversed_on_little_endian:
  "\<exists>c. quic_sendto LittleEndian 0 \<lparr> sin_addr = 2130706433, sin_port = 40000 \<rparr>
          [0, 0, 0, 7, 104, 105] (replicate 1024 0) (replicate 1024 0) new_EpollServer = Some c \<and>
        wire_bytes c = Some ([7, 0, 0, 0] @ QUIC_ECHO @ [104, 105]) \<and>
        wire_bytes c \<noteq> Some ([0, 0, 0, 7] @ QUIC_ECHO @ [104, 105])"
  using quic_response_bytes [of "[0, 0, 0, 7, 104, 105]" LittleEndian 0
          "\<lparr> sin_addr = 2130706433, sin_port = 40000 \<rparr>" "replicate 1024 0" "replicate 1024 0"
          new_EpollServer]
  by auto

text \<open>
  Claim C2, at the input where the code leaves it. For a datagram of 1023 bytes the
  handler copies 1009 payload bytes into the 1024-byte response array but hands
  \<^verbatim>\<open>sendto\<close> the byte count 1034: the count exceeds the array, and the call reads
  past its end.
\<close>

theorem quic_response_size_exceeds_buffer:
  "\<exists>c. quic_sendto LittleEndian 0 \<lparr> sin_addr = 2130706433, sin_port = 40000 \<rparr>
          (replicate 1023 65) (replicate 1024 0) (replicate 1024 0) new_EpollServer = Some c \<and>
        length (sendto_buf c) = 1024 \<and>
        unat (sendto_len c) = 1034 \<and>
        wire_bytes c = None"
  using quic_overread [of "replicate 1023 65" "replicate 1024 0" "replicate 1024 0" LittleEndian 0
          "\<lparr> sin_addr = 2130706433, sin_port = 40000 \<rparr>" new_EpollServer]
  by (simp add: BUFFER_SIZE_def)

text \<open>
  Claim C8. A datagram of length n with 1 \<le> n \<le> 3 on the pseudo-QUIC port is not
  dropped: the handler takes the connection id to be 0, creates the record for id 0
  (incrementing the connection counter) or refreshes its last-activity time, and sends
  the sender a response of exactly n + 11 bytes that begins with four zero bytes
  (followed by the first n + 7 bytes of the marker).
\<close>

theorem quic_short_datagram_answered:
  assumes "1 \<le> length dgram" and "length dgram \<le> 3"
  shows "quic_server e now addr dgram buffer response st = track_connection 0 addr now st \<and>
         (quic_connections_map st 0 = None \<longrightarrow>
            quic_connections_map (quic_server e now addr dgram buffer response st) 0 =
              Some (new_QuicConnection 0 addr now) \<and>
            quic_connections (quic_server e now addr dgram buffer response st) =
              quic_connections st + 1) \<and>
         (\<forall>r. quic_connections_map st 0 = Some r \<longrightarrow>
            quic_connections_map (quic_server e now addr dgram buffer response st) 0 =
              Some (r\<lparr> last_activity := now \<rparr>) \<and>
            quic_connections (quic_server e now addr dgram buffer response st) =
              quic_connections st) \<and>
         (\<exists>c. quic_sendto e now addr dgram buffer response st = Some c \<and>
              sendto_dest c = addr \<and>
              unat (sendto_len c) = length dgram + 11 \<and>
              wire_bytes c = Some ([0, 0, 0, 0] @ take (length dgram + 7) QUIC_ECHO))"
proof -
  have ne: "dgram \<noteq> []" using assms by auto
  have id0: "datagram_id dgram = 0" using assms by (simp add: datagram_id_def)
  have srv: "quic_server e now addr dgram buffer response st = track_connection 0 addr now st"
    using ne id0 by (simp add: quic_server_eq)
  show ?thesis
    unfolding srv
    using quic_wire_short [OF assms, of e now addr buffer response st]
    by (simp add: track_connection_None track_connection_Some)
qed

theorem quic_short_datagram_answered_witness:
  "1 \<le> length [104, 105 :: byte] \<and> length [104, 105 :: byte] \<le> 3 \<and>
   quic_connections_map new_EpollServer 0 = None \<and>
   quic_connections_map (quic_server LittleEndian 5 \<lparr> sin_addr = 2130706433, sin_port = 40000 \<rparr>
       [104, 105] (replicate 1024 0) (replicate 1024 0) new_EpollServer) 0 =
     Some (new_QuicConnection 0 \<lparr> sin_addr = 2130706433, sin_port = 40000 \<rparr> 5) \<and>
   quic_connections (quic_server LittleEndian 5 \<lparr> sin_addr = 2130706433, sin_port = 40000 \<rparr>
       [104, 105] (replicate 1024 0) (replicate 1024 0) new_EpollServer) = 1 \<and>
   (\<exists>c. quic_sendto LittleEndian 5 \<lparr> sin_addr = 2130706433, sin_port = 40000 \<rparr>
           [104, 105] (replicate 1024 0) (replicate 1024 0) new_EpollServer = Some c \<and>
        unat (sendto_len c) = 13 \<and>
        wire_bytes c = Some [0, 0, 0, 0, 81, 85, 73, 67, 32, 69, 99, 104, 111])"
proof -
  have h: "1 \<le> length [104, 105 :: byte]" "length [104, 105 :: byte] \<le> 3" by simp_all
  have e: "quic_connections_map new_EpollServer 0 = None" "quic_connections new_EpollServer = 0"
    by (simp_all add: new_EpollServer_def)
  note t = quic_short_datagram_answered [OF h, of LittleEndian 5
            "\<lparr> sin_addr = 2130706433, sin_port = 40000 \<rparr>" "replicate 1024 0" "replicate 1024 0"
            new_EpollServer]
  from t e have created:
    "quic_connections_map (quic_server LittleEndian 5 \<lparr> sin_addr = 2130706433, sin_port = 40000 \<rparr>
       [104, 105] (replicate 1024 0) (replicate 1024 0) new_EpollServer) 0 =
     Some (new_QuicConnection 0 \<lparr> sin_addr = 2130706433, sin_port = 40000 \<rparr> 5)"
    "quic_connections (quic_server LittleEndian 5 \<lparr> sin_addr = 2130706433, sin_port = 40000 \<rparr>
       [104, 105] (replicate 1024 0) (replicate 1024 0) new_EpollServer) =
     quic_connections new_EpollServer + 1"
    by blast+
  from t obtain c where c:
    "quic_sendto LittleEndian 5 \<lparr> sin_addr = 2130706433, sin_port = 40000 \<rparr>
           [104, 105] (replicate 1024 0) (replicate 1024 0) new_EpollServer = Some c"
    "unat (sendto_len c) = length [104, 105 :: byte] + 11"
    "wire_bytes c = Some ([0, 0, 0, 0] @ take (length [104, 105 :: byte] + 7) QUIC_ECHO)"
    by blast
  have "unat (sendto_len c) = 13"
    "wire_bytes c = Some [0, 0, 0, 0, 81, 85, 73, 67, 32, 69, 99, 104, 111]"
    using c(2,3) by (simp_all add: QUIC_ECHO_bytes)
  then show ?thesis
    using h e created c(1) by simp
qed

text \<open>
  Claim C5. Across every datagram-handling step the connection table keeps its
  invariant (each id has at most one record, stored under that id, and the counter
  counts the records). A record is created exactly when a datagram's id is not yet in
  the table, and the counter is incremented exactly then; a record that exists is only
  updated (its last-activity time is refreshed by a datagram for its id, nothing else
  changes) and is never removed, in one step and in a whole call of the handler.
\<close>

theorem quic_connection_table_invariant:
  "(table_inv st \<longrightarrow> table_inv (quic_server e now addr dgram buffer response st)) \<and>
   (dgram \<noteq> [] \<longrightarrow>
      (case quic_connections_map st (datagram_id dgram) of
         None \<Rightarrow>
           quic_connections_map (quic_server e now addr dgram buffer response st)
               (datagram_id dgram) =
             Some (new_QuicConnection (datagram_id dgram) addr now) \<and>
           quic_connections (quic_server e now addr dgram buffer response st) =
             quic_connections st + 1
       | Some r \<Rightarrow>
           quic_connections_map (quic_server e now addr dgram buffer response st)
               (datagram_id dgram) =
             Some (r\<lparr> last_activity := now \<rparr>) \<and>
           quic_connections (quic_server e now addr dgram buffer response st) =
             quic_connections st)) \<and>
   (dgram = [] \<longrightarrow> quic_server e now addr dgram buffer response st = st) \<and>
   (\<forall>k. k \<noteq> datagram_id dgram \<longrightarrow>
      quic_connections_map (quic_server e now addr dgram buffer response st) k =
        quic_connections_map st k) \<and>
   (\<forall>k r. quic_connections_map st k = Some r \<longrightarrow>
      (\<exists>r'. quic_connections_map (quic_server e now addr dgram buffer response st) k = Some r' \<and>
            connection_id r' = connection_id r \<and> client_addr r' = client_addr r \<and>
            established r' = established r \<and>
            (r' = r \<or> (k = datagram_id dgram \<and> r' = r\<lparr> last_activity := now \<rparr>)))) \<and>
   (table_inv st \<longrightarrow> table_inv (fst (handle_quic_connection e rs buffer response st))) \<and>
   (\<forall>k r. quic_connections_map st k = Some r \<longrightarrow>
      (\<exists>r'. quic_connections_map (fst (handle_quic_connection e rs buffer response st)) k = Some r' \<and>
            connection_id r' = connection_id r \<and> client_addr r' = client_addr r \<and>
            established r' = established r))"
proof (intro conjI impI allI)
  assume "table_inv st"
  then show "table_inv (quic_server e now addr dgram buffer response st)"
    by (rule quic_server_inv)
next
  assume "dgram \<noteq> []"
  then show "case quic_connections_map st (datagram_id dgram) of
         None \<Rightarrow>
           quic_connections_map (quic_server e now addr dgram buffer response st)
               (datagram_id dgram) =
             Some (new_QuicConnection (datagram_id dgram) addr now) \<and>
           quic_connections (quic_server e now addr dgram buffer response st) =
             quic_connections st + 1
       | Some r \<Rightarrow>
           quic_connections_map (quic_server e now addr dgram buffer response st)
               (datagram_id dgram) =
             Some (r\<lparr> last_activity := now \<rparr>) \<and>
           quic_connections (quic_server e now addr dgram buffer response st) =
             quic_connections st"
    by (simp add: quic_server_eq track_connection_None track_connection_Some split: option.split)
next
  assume "dgram = []"
  then show "quic_server e now addr dgram buffer response st = st"
    by (simp add: quic_server_eq)
next
  fix k assume "k \<noteq> datagram_id dgram"
  then show "quic_connections_map (quic_server e now addr dgram buffer response st) k =
             quic_connections_map st k"
    by (simp add: quic_server_eq track_connection_other)
next
  fix k r assume "quic_connections_map st k = Some r"
  then show "\<exists>r'. quic_connections_map (quic_server e now addr dgram buffer response st) k = Some r' \<and>
            connection_id r' = connection_id r \<and> client_addr r' = client_addr r \<and>
            established r' = established r \<and>
            (r' = r \<or> (k = datagram_id dgram \<and> r' = r\<lparr> last_activity := now \<rparr>))"
    by (rule quic_server_keeps)
next
  assume "table_inv st"
  then show "table_inv (fst (handle_quic_connection e rs buffer response st))"
    by (rule handle_quic_connection_inv)
next
  fix k r assume "quic_connections_map st k = Some r"
  then show "\<exists>r'. quic_connections_map (fst (handle_quic_connection e rs buffer response st)) k = Some r' \<and>
            connection_id r' = connection_id r \<and> client_addr r' = client_addr r \<and>
            established r' = established r"
    by (rule handle_quic_connection_keeps)
qed


lemma datagram_id_example: "datagram_id [0, 0, 0, 7, 104, 105] = 7"
  by (simp add: datagram_id_def be_word_def)

theorem quic_connection_table_invariant_witness:
  "table_inv new_EpollServer \<and> [0, 0, 0, 7, 104, 105] \<noteq> ([] :: byte list) \<and>
   quic_connections_map new_EpollServer (datagram_id [0, 0, 0, 7, 104, 105]) = None \<and>
   table_inv (quic_server LittleEndian 5 \<lparr> sin_addr = 2130706433, sin_port = 40000 \<rparr> [0, 0, 0, 7, 104, 105] (replicate 1024 0) (replicate 1024 0) new_EpollServer) \<and>
   quic_connections_map (quic_server LittleEndian 5 \<lparr> sin_addr = 2130706433, sin_port = 40000 \<rparr> [0, 0, 0, 7, 104, 105] (replicate 1024 0) (replicate 1024 0) new_EpollServer) 7 =
     Some (new_QuicConnection 7 \<lparr> sin_addr = 2130706433, sin_port = 40000 \<rparr> 5) \<and>
   quic_connections (quic_server LittleEndian 5 \<lparr> sin_addr = 2130706433, sin_port = 40000 \<rparr> [0, 0, 0, 7, 104, 105] (replicate 1024 0) (replicate 1024 0) new_EpollServer) = 1 \<and>
   table_inv (quic_server LittleEndian 9 \<lparr> sin_addr = 2130706433, sin_port = 40000 \<rparr> [0, 0, 0, 7, 104, 105] (replicate 1024 0) (replicate 1024 0)
        (quic_server LittleEndian 5 \<lparr> sin_addr = 2130706433, sin_port = 40000 \<rparr> [0, 0, 0, 7, 104, 105] (replicate 1024 0) (replicate 1024 0) new_EpollServer)) \<and>
   quic_connections_map (quic_server LittleEndian 9 \<lparr> sin_addr = 2130706433, sin_port = 40000 \<rparr> [0, 0, 0, 7, 104, 105] (replicate 1024 0) (replicate 1024 0)
        (quic_server LittleEndian 5 \<lparr> sin_addr = 2130706433, sin_port = 40000 \<rparr> [0, 0, 0, 7, 104, 105] (replicate 1024 0) (replicate 1024 0) new_EpollServer)) 7 =
     Some ((new_QuicConnection 7 \<lparr> sin_addr = 2130706433, sin_port = 40000 \<rparr> 5)\<lparr> last_activity := 9 \<rparr>) \<and>
   quic_connections (quic_server LittleEndian 9 \<lparr> sin_addr = 2130706433, sin_port = 40000 \<rparr> [0, 0, 0, 7, 104, 105] (replicate 1024 0) (replicate 1024 0)
        (quic_server LittleEndian 5 \<lparr> sin_addr = 2130706433, sin_port = 40000 \<rparr> [0, 0, 0, 7, 104, 105] (replicate 1024 0) (replicate 1024 0) new_EpollServer)) = 1"
proof -
  let ?a = "\<lparr> sin_addr = 2130706433, sin_port = 40000 \<rparr>"
  let ?d = "[0, 0, 0, 7, 104, 105] :: byte list"
  let ?b = "replicate 1024 0 :: byte list"
  let ?s1 = "quic_server LittleEndian 5 ?a ?d ?b ?b new_EpollServer"
  let ?s2 = "quic_server LittleEndian 9 ?a ?d ?b ?b ?s1"
  have ne: "?d \<noteq> []" by simp
  have inv0: "table_inv new_EpollServer"
    by (simp add: table_inv_def new_EpollServer_def)
  have none: "quic_connections_map new_EpollServer (datagram_id ?d) = None"
    "quic_connections new_EpollServer = 0"
    by (simp_all add: new_EpollServer_def)
  note t1 = quic_connection_table_invariant
    [of new_EpollServer LittleEndian 5 ?a ?d ?b ?b "[]"]
  from t1 inv0 have inv1: "table_inv ?s1" by blast
  from t1 ne have "case quic_connections_map new_EpollServer (datagram_id ?d) of
         None \<Rightarrow>
           quic_connections_map ?s1 (datagram_id ?d) =
             Some (new_QuicConnection (datagram_id ?d) ?a 5) \<and>
           quic_connections ?s1 = quic_connections new_EpollServer + 1
       | Some r \<Rightarrow>
           quic_connections_map ?s1 (datagram_id ?d) = Some (r\<lparr> last_activity := 5 \<rparr>) \<and>
           quic_connections ?s1 = quic_connections new_EpollServer"
    by blast
  then have first: "quic_connections_map ?s1 7 = Some (new_QuicConnection 7 ?a 5)"
    "quic_connections ?s1 = 1"
    using none by (simp_all add: datagram_id_example)
  note t2 = quic_connection_table_invariant
    [of ?s1 LittleEndian 9 ?a ?d ?b ?b "[]"]
  from t2 inv1 have inv2: "table_inv ?s2" by blast
  from t2 ne have "case quic_connections_map ?s1 (datagram_id ?d) of
         None \<Rightarrow>
           quic_connections_map ?s2 (datagram_id ?d) =
             Some (new_QuicConnection (datagram_id ?d) ?a 9) \<and>
           quic_connections ?s2 = quic_connections ?s1 + 1
       | Some r \<Rightarrow>
           quic_connections_map ?s2 (datagram_id ?d) = Some (r\<lparr> last_activity := 9 \<rparr>) \<and>
           quic_connections ?s2 = quic_connections ?s1"
    by blast
  then have second: "quic_connections_map ?s2 7 =
      Some ((new_QuicConnection 7 ?a 5)\<lparr> last_activity := 9 \<rparr>)"
    "quic_connections ?s2 = 1"
    using first by (simp_all add: datagram_id_example)
  show ?thesis
    using ne inv0 none(1) inv1 first inv2 second by blast
qed

section \<open>Echo lemmas\<close>




lemma write_loop_zero_writes_aux:
  assumes "write_loop w k buffer bytes_read total_written out = Some r"
  shows "\<not> ((\<forall>i. w i = Wrote 0) \<and> total_written < bytes_read)"
proof (rule write_loop.raw_induct
    [where P = "\<lambda>w k buffer bytes_read total_written out r.
                  \<not> ((\<forall>i. w i = Wrote 0) \<and> total_written < bytes_read)"], goal_cases)
  case (1 loop w k buffer bytes_read total_written out r)
  show "\<not> ((\<forall>i. w i = Wrote 0) \<and> total_written < bytes_read)"
  proof
    assume a: "(\<forall>i. w i = Wrote 0) \<and> total_written < bytes_read"
    then have "loop w (k + 1) buffer bytes_read total_written out = Some r"
      using 1(2) by simp
    then have "\<not> ((\<forall>i. w i = Wrote 0) \<and> total_written < bytes_read)"
      by (rule 1(1))
    then show False using a by simp
  qed
next
  case 2
  show "write_loop w k buffer bytes_read total_written out = Some r" by (rule assms)
qed

text \<open>A socket whose every \<^verbatim>\<open>write\<close> returns 0 keeps the inner loop running for
  ever.\<close>

lemma write_loop_zero_writes_never_end:
  assumes "\<forall>i. w i = Wrote 0" and "total_written < bytes_read"
  shows "write_loop w k buffer bytes_read total_written out = None"
  using write_loop_zero_writes_aux [of w k buffer bytes_read total_written out] assms
  by (cases "write_loop w k buffer bytes_read total_written out") auto










section \<open>Client worker lemmas\<close>

lemma worker_step_stop:
  "stop_test w \<Longrightarrow> stop_test (worker_step proto ev w)"
  by (cases ev; cases "pc w") simp_all

lemma worker_step_bound:
  assumes "stop_test w"
  shows "requests_sent (worker_step proto ev w) + (if pc (worker_step proto ev w) = AtSend then 1 else 0)
           \<le> requests_sent w + (if pc w = AtSend then 1 else 0)"
    and "recorded (worker_step proto ev w) +
           (if pc (worker_step proto ev w) \<in> {AtSend, AtRecv} then 1 else 0)
           \<le> recorded w + (if pc w \<in> {AtSend, AtRecv} then 1 else 0)"
  using assms by (cases ev; cases "pc w"; simp)+

lemma worker_run_bound:
  assumes "stop_test w"
  shows "stop_test (worker_run proto es w) \<and>
         requests_sent (worker_run proto es w) + (if pc (worker_run proto es w) = AtSend then 1 else 0)
           \<le> requests_sent w + (if pc w = AtSend then 1 else 0) \<and>
         recorded (worker_run proto es w) +
           (if pc (worker_run proto es w) \<in> {AtSend, AtRecv} then 1 else 0)
           \<le> recorded w + (if pc w \<in> {AtSend, AtRecv} then 1 else 0)"
  using assms
proof (induction es arbitrary: w)
  case Nil
  then show ?case by simp
next
  case (Cons ev es)
  have s: "stop_test (worker_step proto ev w)"
    using Cons.prems by (rule worker_step_stop)
  show ?case
    using Cons.IH [OF s] worker_step_bound [OF Cons.prems, of proto ev]
    by (simp del: worker_step.simps)
qed

lemma worker_exits_in_four:
  assumes "stop_test w"
  shows "pc (worker_run proto [WorkerStep r1, WorkerStep r2, WorkerStep r3, WorkerStep r4] w) = Exited"
  using assms
  by (cases "pc w"; cases r1; cases r2; cases r3; cases proto; simp)

lemma worker_step_sent_after_stop:
  assumes "sent_after_stop w \<le> 1" and "pc w = AtSend \<longrightarrow> sent_after_stop w = 0"
    and "\<not> stop_test w \<longrightarrow> sent_after_stop w = 0"
  shows "sent_after_stop (worker_step proto ev w) \<le> 1 \<and>
         (pc (worker_step proto ev w) = AtSend \<longrightarrow> sent_after_stop (worker_step proto ev w) = 0) \<and>
         (\<not> stop_test (worker_step proto ev w) \<longrightarrow> sent_after_stop (worker_step proto ev w) = 0)"
  using assms by (cases ev; cases "pc w") auto

lemma worker_run_sent_after_stop:
  assumes "sent_after_stop w \<le> 1" and "pc w = AtSend \<longrightarrow> sent_after_stop w = 0"
    and "\<not> stop_test w \<longrightarrow> sent_after_stop w = 0"
  shows "sent_after_stop (worker_run proto es w) \<le> 1"
  using assms
proof (induction es arbitrary: w)
  case Nil
  then show ?case by simp
next
  case (Cons ev es)
  have "sent_after_stop (worker_run proto es (worker_step proto ev w)) \<le> 1"
    using worker_step_sent_after_stop [OF Cons.prems, of proto ev]
    by (intro Cons.IH) blast+
  then show ?case by (simp del: worker_step.simps)
qed

text \<open>
  Claim C7, as the code has it. Once the stop signal has been raised a worker, stream or
  datagram, begins no new loop iteration. It makes at most one send call while the signal
  is up, and only when it had passed its loop-head check before the signal came; from any
  state in which the signal is up it sends at most that one request, records at most one
  more sample, and it has left its loop after at most four further actions.
\<close>

theorem stop_signal_bounds_requests:
  "sent_after_stop (worker_run proto es worker_start) \<le> 1 \<and>
   (stop_test w \<longrightarrow>
      stop_test (worker_run proto es w) \<and>
      requests_sent (worker_run proto es w) \<le> requests_sent w + (if pc w = AtSend then 1 else 0) \<and>
      recorded (worker_run proto es w) \<le> recorded w + (if pc w \<in> {AtSend, AtRecv} then 1 else 0) \<and>
      pc (worker_run proto [WorkerStep r1, WorkerStep r2, WorkerStep r3, WorkerStep r4] w) = Exited)"
proof (intro conjI impI)
  show "sent_after_stop (worker_run proto es worker_start) \<le> 1"
    by (rule worker_run_sent_after_stop) (simp_all add: worker_start_def)
next
  assume s: "stop_test w"
  note b = worker_run_bound [OF s, of proto es]
  show "stop_test (worker_run proto es w)" using b by blast
  show "requests_sent (worker_run proto es w) \<le> requests_sent w + (if pc w = AtSend then 1 else 0)"
    using b by (simp split: if_splits)
  show "recorded (worker_run proto es w) \<le> recorded w + (if pc w \<in> {AtSend, AtRecv} then 1 else 0)"
    using b by (simp split: if_splits)
  show "pc (worker_run proto [WorkerStep r1, WorkerStep r2, WorkerStep r3, WorkerStep r4] w) = Exited"
    using s by (rule worker_exits_in_four)
qed

theorem stop_signal_bounds_requests_witness:
  "stop_test \<lparr> pc = AtRecv, stop_test = True, requests_sent = 1, recorded = 0,
               sent_after_stop = 0 \<rparr> \<and>
   requests_sent (worker_run UDP [WorkerStep IoOk, WorkerStep IoOk, WorkerStep IoOk]
      \<lparr> pc = AtRecv, stop_test = True, requests_sent = 1, recorded = 0,
        sent_after_stop = 0 \<rparr>) \<le> 1 \<and>
   recorded (worker_run UDP [WorkerStep IoOk, WorkerStep IoOk, WorkerStep IoOk]
      \<lparr> pc = AtRecv, stop_test = True, requests_sent = 1, recorded = 0,
        sent_after_stop = 0 \<rparr>) \<le> 1 \<and>
   pc (worker_run UDP [WorkerStep IoOk, WorkerStep IoOk, WorkerStep IoOk, WorkerStep IoOk]
      \<lparr> pc = AtRecv, stop_test = True, requests_sent = 1, recorded = 0,
        sent_after_stop = 0 \<rparr>) = Exited"
  using stop_signal_bounds_requests [of UDP "[WorkerStep IoOk, WorkerStep IoOk, WorkerStep IoOk]"
      "\<lparr> pc = AtRecv, stop_test = True, requests_sent = 1, recorded = 0, sent_after_stop = 0 \<rparr>"
      IoOk IoOk IoOk IoOk]
  by simp

text \<open>
  Claim C7 as stated fails: a stream worker that has read the flag (still clear) at its
  loop head, and is overtaken by the driver's store to the flag, makes its send call
  after the signal was raised. That request was not in flight when the signal came.
\<close>

theorem request_sent_after_stop_signal:
  "stop_test (worker_run TCP [WorkerStep IoOk, RaiseStop] worker_start) \<and>
   requests_sent (worker_run TCP [WorkerStep IoOk, RaiseStop] worker_start) = 0 \<and>
   requests_sent (worker_run TCP [WorkerStep IoOk, RaiseStop, WorkerStep IoOk] worker_start) = 1 \<and>
   sent_after_stop (worker_run TCP [WorkerStep IoOk, RaiseStop, WorkerStep IoOk] worker_start) = 1"
  by (simp add: worker_start_def)

end
